theory Spec2Isabelle
  imports Complex_Main "HOL-Library.Multiset"
begin

section \<open>Local Environment Representation: the data of \<open>pyrelate/descriptors.py\<close>\<close>

text \<open>
  The function \<open>ler\<close> of \<open>pyrelate/descriptors.py\<close> is embedded as it is written.
  Floating-point numbers are read as real numbers, except for the one place where the
  source divides by a sum that may be zero: there numpy's result of a division by zero
  (\<open>nan\<close>, \<open>inf\<close>) is kept as a value of its own.
  A Python dictionary (insertion ordered) is an association list; \<open>d[k] = v\<close> replaces
  the value in place when the key is present and appends the pair otherwise.
\<close>

type_synonym vec = "real list"
type_synonym aid = string
type_synonym lae_id = "aid \<times> nat"
type_synonym kwargs = "(string \<times> real) list"
type_synonym matrix = "vec option list"

datatype error = RuntimeError | TypeError | IndexError | ValueError

datatype npfloat = Finite real | PosInf | NegInf | NaN

text \<open>What \<open>ler\<close> reads of an \<open>ase.atoms.Atoms\<close> object: \<open>get_chemical_symbols()\<close> and
  \<open>get_array('aid')\<close>.\<close>

record atoms =
  chemical_symbols :: "string list"
  aid_array :: "aid list"

text \<open>The dictionary \<open>U\<close>: the ordered centres and the cluster buckets.\<close>

record artifact =
  centers :: "(lae_id \<times> vec) list"
  clusters :: "(lae_id \<times> lae_id list) list"

text \<open>The arguments of \<open>ler\<close> other than \<open>store\<close>.\<close>

record ler_args =
  arg_atoms :: atoms
  arg_collection :: "(aid \<times> atoms) list"
  arg_eps :: real
  arg_res_needed :: string
  arg_soap_fcn :: "string option"
  arg_seed :: "vec option"
  arg_metric :: string
  arg_n_trees :: int
  arg_search_k :: int
  arg_soapargs :: kwargs

text \<open>The keyword arguments of \<open>store.get("temp", 'U_ler', ...)\<close> and of the matching
  \<open>store.store\<close>: every argument of \<open>ler\<close> except \<open>atoms\<close> and \<open>seed\<close>.\<close>

record ler_key =
  key_collection :: "(aid \<times> atoms) list"
  key_eps :: real
  key_res_needed :: string
  key_soap_fcn :: "string option"
  key_metric :: string
  key_n_trees :: int
  key_search_k :: int
  key_soapargs :: kwargs

text \<open>
  Modelled from the spec: the class \<open>pyrelate.store.Store\<close> is not part of the source
  given; following section 4.5 it is a key/value store without locking, \<open>get\<close> answering
  the stored value or \<open>None\<close>. \<open>results\<close> holds the descriptions computed earlier
  (\<open>store.get(res_needed, aid, **soapargs)\<close>), \<open>temp\<close> the cached artifacts.
  \<open>tmp_file\<close> tells whether the file \<open>tmp\<close> exists in the working directory.
\<close>

record world =
  results :: "string \<Rightarrow> aid \<Rightarrow> kwargs \<Rightarrow> matrix option"
  temp :: "ler_key \<Rightarrow> artifact option"
  tmp_file :: bool

text \<open>
  The libraries \<open>ler\<close> calls and that are not part of the source given:
  \<open>pyrelate.elements.seed(symbol, soap_fcn, **soapargs)\<close>, and Annoy, whose index
  \<open>AnnoyIndex(dim, metric)\<close> filled with the items and built with \<open>n_trees\<close> trees
  either raises or is the function answering \<open>get_nns_by_vector(lae, 1, search_k)\<close>.
\<close>

record env =
  elements_seed :: "string \<Rightarrow> string option \<Rightarrow> kwargs \<Rightarrow> vec"
  annoy_index :: "nat \<Rightarrow> string \<Rightarrow> int \<Rightarrow> vec list \<Rightarrow> error + (vec \<Rightarrow> int \<Rightarrow> error + nat list)"

section \<open>Dictionaries and arrays\<close>

fun dict_set :: "'k \<Rightarrow> 'v \<Rightarrow> ('k \<times> 'v) list \<Rightarrow> ('k \<times> 'v) list" where
  "dict_set k v [] = [(k, v)]"
| "dict_set k v ((k', v') # d) = (if k' = k then (k, v) # d else (k', v') # dict_set k v d)"

text \<open>\<open>unique - lae\<close> on one-dimensional arrays: elementwise when the shapes agree, an array
  of one element is broadcast, any other pair of shapes raises ValueError.\<close>

definition np_sub :: "vec \<Rightarrow> vec \<Rightarrow> error + vec" where
  "np_sub u v =
     (if length u = length v then Inr (map2 (-) u v)
      else if length v = 1 then Inr (map (\<lambda>x. x - hd v) u)
      else if length u = 1 then Inr (map (\<lambda>y. hd u - y) v)
      else Inl ValueError)"

definition np_norm :: "vec \<Rightarrow> real" where
  "np_norm v = sqrt (\<Sum>x\<leftarrow>v. x * x)"

text \<open>Division of two floats by numpy: a zero divisor gives \<open>nan\<close> or an infinity (and a
  warning), never an exception.\<close>

definition np_div :: "real \<Rightarrow> real \<Rightarrow> npfloat" where
  "np_div x y =
     (if y \<noteq> 0 then Finite (x / y)
      else if x = 0 then NaN
      else if 0 < x then PosInf else NegInf)"

section \<open>Part 1: clustering\<close>

text \<open>The loop \<open>for unique in U['centers'].values()\<close> with its \<open>break\<close> and \<open>else\<close>:
  \<open>Inr True\<close> when the loop ends without a break (the \<open>else\<close> branch runs),
  \<open>Inr False\<close> when it breaks.\<close>

fun scan_centers :: "real \<Rightarrow> vec list \<Rightarrow> vec \<Rightarrow> error + bool" where
  "scan_centers e [] lae = Inr True"
| "scan_centers e (unique # rest) lae =
     (case np_sub unique lae of
        Inl err \<Rightarrow> Inl err
      | Inr d \<Rightarrow> if np_norm d < e then Inr False else scan_centers e rest lae)"

text \<open>The loop \<open>for lae_num, lae in enumerate(...)\<close> of part 1, from index \<open>n\<close> on.\<close>

fun cluster_laes ::
  "real \<Rightarrow> aid \<Rightarrow> nat \<Rightarrow> matrix \<Rightarrow> (lae_id \<times> vec) list \<Rightarrow> error + (lae_id \<times> vec) list" where
  "cluster_laes e a n [] cs = Inr cs"
| "cluster_laes e a n (None # laes) cs = Inl RuntimeError"
| "cluster_laes e a n (Some lae # laes) cs =
     (case scan_centers e (map snd cs) lae of
        Inl err \<Rightarrow> Inl err
      | Inr True \<Rightarrow> cluster_laes e a (Suc n) laes (dict_set (a, n) lae cs)
      | Inr False \<Rightarrow> cluster_laes e a (Suc n) laes cs)"

text \<open>The loop \<open>for aid in collection\<close> of part 1; \<open>enumerate(None)\<close> raises TypeError.\<close>

fun cluster_collection ::
  "(aid \<Rightarrow> matrix option) \<Rightarrow> real \<Rightarrow> aid list \<Rightarrow> (lae_id \<times> vec) list
     \<Rightarrow> error + (lae_id \<times> vec) list" where
  "cluster_collection get e [] cs = Inr cs"
| "cluster_collection get e (a # aids) cs =
     (case get a of
        None \<Rightarrow> Inl TypeError
      | Some laes \<Rightarrow>
          (case cluster_laes e a 0 laes cs of
             Inl err \<Rightarrow> Inl err
           | Inr cs' \<Rightarrow> cluster_collection get e aids cs'))"

section \<open>Part 2: classifying\<close>

text \<open>\<open>if cluster not in U['clusters']: U['clusters'][cluster] = []\<close> followed by
  \<open>U['clusters'][cluster].append(x)\<close>.\<close>

definition bucket_append ::
  "lae_id \<Rightarrow> lae_id \<Rightarrow> (lae_id \<times> lae_id list) list \<Rightarrow> (lae_id \<times> lae_id list) list" where
  "bucket_append cluster x cl =
     (case map_of cl cluster of
        None \<Rightarrow> dict_set cluster [x] cl
      | Some b \<Rightarrow> dict_set cluster (b @ [x]) cl)"

text \<open>One query: \<open>a.get_nns_by_vector(lae, 1, ...)[0]\<close>, then \<open>list(U['centers'].keys())[nni]\<close>.
  Annoy rejects a query that is not a vector with TypeError.\<close>

definition nearest_cluster ::
  "(vec \<Rightarrow> error + nat list) \<Rightarrow> lae_id list \<Rightarrow> vec option \<Rightarrow> error + lae_id" where
  "nearest_cluster nns keys lae =
     (case lae of
        None \<Rightarrow> Inl TypeError
      | Some v \<Rightarrow>
          (case nns v of
             Inl err \<Rightarrow> Inl err
           | Inr [] \<Rightarrow> Inl IndexError
           | Inr (nni # _) \<Rightarrow> if nni < length keys then Inr (keys ! nni) else Inl IndexError))"

fun assign_laes ::
  "(vec \<Rightarrow> error + nat list) \<Rightarrow> lae_id list \<Rightarrow> aid \<Rightarrow> nat \<Rightarrow> matrix
     \<Rightarrow> (lae_id \<times> lae_id list) list \<Rightarrow> error + (lae_id \<times> lae_id list) list" where
  "assign_laes nns keys a n [] cl = Inr cl"
| "assign_laes nns keys a n (lae # laes) cl =
     (case nearest_cluster nns keys lae of
        Inl err \<Rightarrow> Inl err
      | Inr cluster \<Rightarrow> assign_laes nns keys a (Suc n) laes (bucket_append cluster (a, n) cl))"

fun assign_collection ::
  "(vec \<Rightarrow> error + nat list) \<Rightarrow> lae_id list \<Rightarrow> (aid \<Rightarrow> matrix option) \<Rightarrow> aid list
     \<Rightarrow> (lae_id \<times> lae_id list) list \<Rightarrow> error + (lae_id \<times> lae_id list) list" where
  "assign_collection nns keys get [] cl = Inr cl"
| "assign_collection nns keys get (a # aids) cl =
     (case get a of
        None \<Rightarrow> Inl TypeError
      | Some laes \<Rightarrow>
          (case assign_laes nns keys a 0 laes cl of
             Inl err \<Rightarrow> Inl err
           | Inr cl' \<Rightarrow> assign_collection nns keys get aids cl'))"

section \<open>The function \<open>ler\<close>\<close>

definition cache_key :: "ler_args \<Rightarrow> ler_key" where
  "cache_key a =
     \<lparr>key_collection = arg_collection a, key_eps = arg_eps a,
      key_res_needed = arg_res_needed a, key_soap_fcn = arg_soap_fcn a,
      key_metric = arg_metric a, key_n_trees = arg_n_trees a,
      key_search_k = arg_search_k a, key_soapargs = arg_soapargs a\<rparr>"

text \<open>\<open>store.get(res_needed, aid, **soapargs)\<close>.\<close>

definition get_laes :: "world \<Rightarrow> ler_args \<Rightarrow> aid \<Rightarrow> matrix option" where
  "get_laes w a x = results w (arg_res_needed a) x (arg_soapargs a)"

text \<open>\<open>if seed is None: seed = elements.seed(list(collection.values())[0].get_chemical_symbols()[0], ...)\<close>.\<close>

definition resolve_seed :: "env \<Rightarrow> ler_args \<Rightarrow> error + vec" where
  "resolve_seed ev a =
     (case arg_seed a of
        Some s \<Rightarrow> Inr s
      | None \<Rightarrow>
          (case arg_collection a of
             [] \<Rightarrow> Inl IndexError
           | (_, ats) # _ \<Rightarrow>
               (case chemical_symbols ats of
                  [] \<Rightarrow> Inl IndexError
                | el # _ \<Rightarrow> Inr (elements_seed ev el (arg_soap_fcn a) (arg_soapargs a)))))"

text \<open>The body of \<open>if U is None\<close> up to, and without, \<open>store.store\<close>: the clustering,
  the index, the file \<open>tmp\<close> saved, the classification, the file removed. The file
  exists from \<open>a.save('tmp')\<close> until \<open>os.remove('tmp')\<close>, so an error raised by the
  classification leaves it behind.\<close>

definition build_artifact :: "env \<Rightarrow> ler_args \<Rightarrow> world \<Rightarrow> (error + artifact) \<times> world" where
  "build_artifact ev a w =
     (case resolve_seed ev a of
        Inl err \<Rightarrow> (Inl err, w)
      | Inr sd \<Rightarrow>
          (case cluster_collection (get_laes w a) (arg_eps a) (map fst (arg_collection a))
                  [((''0'', 0), sd)] of
             Inl err \<Rightarrow> (Inl err, w)
           | Inr cs \<Rightarrow>
               (case annoy_index ev (length sd) (arg_metric a) (arg_n_trees a) (map snd cs) of
                  Inl err \<Rightarrow> (Inl err, w)
                | Inr idx \<Rightarrow>
                    (case assign_collection (\<lambda>v. idx v (arg_search_k a)) (map fst cs)
                            (get_laes w a) (map fst (arg_collection a)) [] of
                       Inl err \<Rightarrow> (Inl err, w\<lparr>tmp_file := True\<rparr>)
                     | Inr cl \<Rightarrow>
                         (Inr \<lparr>centers = cs, clusters = cl\<rparr>, w\<lparr>tmp_file := False\<rparr>)))))"

text \<open>The part after \<open># Calculate LER\<close>.\<close>

definition calc_ler :: "atoms \<Rightarrow> artifact \<Rightarrow> error + npfloat list" where
  "calc_ler ats U =
     (case aid_array ats of
        [] \<Rightarrow> Inl IndexError
      | x # _ \<Rightarrow>
          (let result = map (\<lambda>(center, cluster). real (length (filter (\<lambda>c. fst c = x) cluster)))
                          (clusters U)
           in Inr (map (\<lambda>r. np_div r (sum_list result)) result)))"

definition ler :: "env \<Rightarrow> ler_args \<Rightarrow> world \<Rightarrow> (error + npfloat list) \<times> world" where
  "ler ev a w =
     (case temp w (cache_key a) of
        Some U \<Rightarrow> (calc_ler (arg_atoms a) U, w)
      | None \<Rightarrow>
          (case build_artifact ev a w of
             (Inl err, w') \<Rightarrow> (Inl err, w')
           | (Inr U, w') \<Rightarrow>
               (calc_ler (arg_atoms a) U, w'\<lparr>temp := (temp w')(cache_key a \<mapsto> U)\<rparr>)))"

section \<open>Reference formulations\<close>





text \<open>The greedy pass in the words of the specification, over the stream of the vectors
  with their identifiers: a vector whose distance to every registered centre is at least
  \<open>eps\<close> becomes a new centre, keyed by its identifier and placed after the centres
  registered before it; any other vector changes nothing.\<close>

fun greedy_ref :: "real \<Rightarrow> (lae_id \<times> vec) list \<Rightarrow> (lae_id \<times> vec) list \<Rightarrow> (lae_id \<times> vec) list" where
  "greedy_ref e cs [] = cs"
| "greedy_ref e cs ((k, v) # s) =
     (if \<forall>u\<in>set (map snd cs). e \<le> np_norm (map2 (-) u v)
      then greedy_ref e (cs @ [(k, v)]) s
      else greedy_ref e cs s)"

definition laes_stream :: "aid \<Rightarrow> nat \<Rightarrow> matrix \<Rightarrow> (lae_id \<times> vec) list" where
  "laes_stream a n m =
     concat (map (\<lambda>(i, l). case l of None \<Rightarrow> [] | Some v \<Rightarrow> [((a, i), v)]) (enumerate n m))"

definition collection_stream :: "(aid \<Rightarrow> matrix option) \<Rightarrow> aid list \<Rightarrow> (lae_id \<times> vec) list" where
  "collection_stream get aids =
     concat (map (\<lambda>a. case get a of None \<Rightarrow> [] | Some m \<Rightarrow> laes_stream a 0 m) aids)"

text \<open>The identifiers \<open>(aid, lae_num)\<close> of all local environments of a collection, in the
  order of traversal.\<close>

definition collection_ids :: "(aid \<Rightarrow> matrix option) \<Rightarrow> aid list \<Rightarrow> lae_id list" where
  "collection_ids get aids =
     concat (map (\<lambda>a. case get a of None \<Rightarrow> [] | Some laes \<Rightarrow> map (Pair a) [0..<length laes]) aids)"

text \<open>How many of the identifiers in a bucket belong to configuration \<open>x\<close>.\<close>

definition members_of :: "aid \<Rightarrow> lae_id list \<Rightarrow> nat" where
  "members_of x cluster = length (filter (\<lambda>c. fst c = x) cluster)"

text \<open>The artifacts a store may hold: an artifact cached under a key was constructed by
  \<open>ler\<close> from arguments with this key, on a store with the same descriptions.\<close>

definition built_by :: "world \<Rightarrow> ler_key \<Rightarrow> artifact \<Rightarrow> bool" where
  "built_by w k U \<longleftrightarrow>
     (\<exists>ev a w0 w1. cache_key a = k \<and> results w0 = results w
        \<and> build_artifact ev a w0 = (Inr U, w1))"

definition cache_valid :: "world \<Rightarrow> bool" where
  "cache_valid w \<longleftrightarrow> (\<forall>k U. temp w k = Some U \<longrightarrow> built_by w k U)"

section \<open>An example: the scenario of section 8 of the specification\<close>

text \<open>An index that searches exhaustively, standing for Annoy in the examples. It keeps
  Annoy's check of the length of every vector it is given.\<close>

fun argmin_from :: "nat \<Rightarrow> real \<Rightarrow> nat \<Rightarrow> real list \<Rightarrow> nat" where
  "argmin_from b bv i [] = b"
| "argmin_from b bv i (d # ds) =
     (if d < bv then argmin_from i d (Suc i) ds else argmin_from b bv (Suc i) ds)"

definition exact_nns :: "vec list \<Rightarrow> vec \<Rightarrow> nat list" where
  "exact_nns items v =
     (case map (\<lambda>u. np_norm (map2 (-) u v)) items of
        [] \<Rightarrow> []
      | d # ds \<Rightarrow> [argmin_from 0 d 1 ds])"

definition exact_index ::
  "nat \<Rightarrow> string \<Rightarrow> int \<Rightarrow> vec list \<Rightarrow> error + (vec \<Rightarrow> int \<Rightarrow> error + nat list)" where
  "exact_index d m n_trees items =
     (if list_all (\<lambda>u. length u = d) items
      then Inr (\<lambda>v k. if length v = d then Inr (exact_nns items v) else Inl IndexError)
      else Inl IndexError)"

definition ex_env :: env where
  "ex_env = \<lparr>elements_seed = (\<lambda>el f kw. [0, 0]), annoy_index = exact_index\<rparr>"

definition ex_results :: "string \<Rightarrow> aid \<Rightarrow> kwargs \<Rightarrow> matrix option" where
  "ex_results r x kw =
     (if r = ''soap'' \<and> x = ''A'' then Some [Some [1/10, 1/10], Some [5, 5], Some [51/10, 51/10]]
      else if r = ''soap'' \<and> x = ''B'' then Some [Some [0, 2/10], Some [5, 52/10]]
      else None)"

definition ex_world :: world where
  "ex_world = \<lparr>results = ex_results, temp = (\<lambda>k. None), tmp_file = False\<rparr>"

definition ex_atoms_A :: atoms where
  "ex_atoms_A = \<lparr>chemical_symbols = [''Ni'', ''Ni'', ''Ni''], aid_array = [''A'', ''A'', ''A'']\<rparr>"

definition ex_atoms_B :: atoms where
  "ex_atoms_B = \<lparr>chemical_symbols = [''Ni'', ''Ni''], aid_array = [''B'', ''B'']\<rparr>"

definition ex_args :: ler_args where
  "ex_args =
     \<lparr>arg_atoms = ex_atoms_A,
      arg_collection = [(''A'', ex_atoms_A), (''B'', ex_atoms_B)],
      arg_eps = 1, arg_res_needed = ''soap'', arg_soap_fcn = None, arg_seed = Some [0, 0],
      arg_metric = ''euclidean'', arg_n_trees = 10, arg_search_k = - 1, arg_soapargs = []\<rparr>"

text \<open>The artifact of the scenario, and the store once it is cached.\<close>

definition ex_artifact :: artifact where
  "ex_artifact =
     \<lparr>centers = [((''0'', 0), [0, 0]), ((''A'', 1), [5, 5])],
      clusters = [((''0'', 0), [(''A'', 0), (''B'', 0)]),
                  ((''A'', 1), [(''A'', 1), (''A'', 2), (''B'', 1)])]\<rparr>"

definition ex_world_cached :: world where
  "ex_world_cached = ex_world\<lparr>temp := (temp ex_world)(cache_key ex_args \<mapsto> ex_artifact)\<rparr>"

text \<open>Variants of the scenario: the second vector of configuration \<open>B\<close> is missing; the
  only vector of configuration \<open>A\<close> has one component where the seed has two; a third
  configuration \<open>C\<close> has no vector at all.\<close>

definition ex_results_missing :: "string \<Rightarrow> aid \<Rightarrow> kwargs \<Rightarrow> matrix option" where
  "ex_results_missing r x kw =
     (if r = ''soap'' \<and> x = ''B'' then Some [Some [0, 2/10], None] else ex_results r x kw)"

definition ex_results_short :: "string \<Rightarrow> aid \<Rightarrow> kwargs \<Rightarrow> matrix option" where
  "ex_results_short r x kw =
     (if r = ''soap'' \<and> x = ''A'' then Some [Some [1/2]] else ex_results r x kw)"

definition ex_results_empty :: "string \<Rightarrow> aid \<Rightarrow> kwargs \<Rightarrow> matrix option" where
  "ex_results_empty r x kw =
     (if r = ''soap'' \<and> x = ''C'' then Some [] else ex_results r x kw)"

definition ex_atoms_C :: atoms where
  "ex_atoms_C = \<lparr>chemical_symbols = [''Ni''], aid_array = [''C'']\<rparr>"

definition ex_atoms_none :: atoms where
  "ex_atoms_none = \<lparr>chemical_symbols = [], aid_array = []\<rparr>"

definition ex_args_C :: ler_args where
  "ex_args_C =
     ex_args\<lparr>arg_atoms := ex_atoms_C,
             arg_collection := [(''A'', ex_atoms_A), (''B'', ex_atoms_B), (''C'', ex_atoms_C)]\<rparr>"

text \<open>Two more collections. In the first the only vector \<open>(5,5)\<close> is far from the seed.
  In the second the vectors have one component, the seed is \<open>(0)\<close>, and the vectors are
  \<open>(9/10), (1), (1/10)\<close>.\<close>

definition ex_atoms_one :: atoms where
  "ex_atoms_one = \<lparr>chemical_symbols = [''Ni''], aid_array = [''A'']\<rparr>"

definition ex_results_far :: "string \<Rightarrow> aid \<Rightarrow> kwargs \<Rightarrow> matrix option" where
  "ex_results_far r x kw = (if r = ''soap'' \<and> x = ''A'' then Some [Some [5, 5]] else None)"

definition ex_args_far :: ler_args where
  "ex_args_far = ex_args\<lparr>arg_atoms := ex_atoms_one, arg_collection := [(''A'', ex_atoms_one)]\<rparr>"

definition ex_results_line :: "string \<Rightarrow> aid \<Rightarrow> kwargs \<Rightarrow> matrix option" where
  "ex_results_line r x kw =
     (if r = ''soap'' \<and> x = ''A'' then Some [Some [9/10], Some [1], Some [1/10]] else None)"

definition ex_args_line :: ler_args where
  "ex_args_line =
     ex_args\<lparr>arg_collection := [(''A'', ex_atoms_A)], arg_seed := Some [0]\<rparr>"

text \<open>A collection whose only configuration is named \<open>0\<close>; its only vector is \<open>(5,5)\<close>.\<close>

definition ex_atoms_zero :: atoms where
  "ex_atoms_zero = \<lparr>chemical_symbols = [''Ni''], aid_array = [''0'']\<rparr>"

definition ex_results_zero :: "string \<Rightarrow> aid \<Rightarrow> kwargs \<Rightarrow> matrix option" where
  "ex_results_zero r x kw = (if r = ''soap'' \<and> x = ''0'' then Some [Some [5, 5]] else None)"

definition ex_args_zero :: ler_args where
  "ex_args_zero = ex_args\<lparr>arg_atoms := ex_atoms_zero, arg_collection := [(''0'', ex_atoms_zero)]\<rparr>"

section \<open>Facts about dictionaries and the norm\<close>

lemma np_norm_less_iff: "0 < e \<Longrightarrow> (np_norm v < e) = ((\<Sum>x\<leftarrow>v. x * x) < e * e)"
proof -
  assume e: "0 < e"
  have "sqrt (e * e) = e" using e by simp
  then have "(np_norm v < e) = (sqrt (\<Sum>x\<leftarrow>v. x * x) < sqrt (e * e))"
    by (simp add: np_norm_def)
  then show ?thesis by (simp only: real_sqrt_less_iff)
qed

lemma dict_set_keys:
  "map fst (dict_set k v d) = (if k \<in> set (map fst d) then map fst d else map fst d @ [k])"
  by (induction d) (auto split: if_splits)

lemma dict_set_distinct: "distinct (map fst d) \<Longrightarrow> distinct (map fst (dict_set k v d))"
  by (simp add: dict_set_keys)

lemma dict_set_length:
  "length (dict_set k v d) = (if k \<in> set (map fst d) then length d else Suc (length d))"
  by (induction d) (auto split: if_splits)

lemma dict_set_values: "set (map snd (dict_set k v d)) \<subseteq> insert v (set (map snd d))"
proof (induction d)
  case Nil
  then show ?case by simp
next
  case (Cons p d)
  obtain k' v' where p: "p = (k', v')" by (cases p)
  show ?case
  proof (cases "k' = k")
    case True
    then show ?thesis using p by auto
  next
    case False
    then show ?thesis using p Cons.IH by auto
  qed
qed

lemma dict_set_new: "map_of d k = None \<Longrightarrow> dict_set k v d = d @ [(k, v)]"
  by (induction d) (auto split: if_splits)

lemma dict_set_old_mset:
  "map_of cl c = Some b \<Longrightarrow>
   mset (concat (map snd (dict_set c (b @ [x]) cl))) = add_mset x (mset (concat (map snd cl)))"
  by (induction cl) (auto split: if_splits)

lemma bucket_append_mset:
  "mset (concat (map snd (bucket_append c x cl))) = add_mset x (mset (concat (map snd cl)))"
  by (simp add: bucket_append_def dict_set_new dict_set_old_mset split: option.splits)

lemma bucket_append_keys:
  "map fst (bucket_append c x cl) = (if c \<in> set (map fst cl) then map fst cl else map fst cl @ [c])"
  by (simp add: bucket_append_def dict_set_keys split: option.splits)

lemma bucket_append_nonempty:
  assumes "[] \<notin> set (map snd cl)"
  shows "[] \<notin> set (map snd (bucket_append c x cl))"
proof -
  have "set (map snd (dict_set c v cl)) \<subseteq> insert v (set (map snd cl))" for v
    by (rule dict_set_values)
  then have "v \<noteq> [] \<Longrightarrow> [] \<notin> set (map snd (dict_set c v cl))" for v
    using assms by blast
  then show ?thesis
    by (simp add: bucket_append_def split: option.splits)
qed

section \<open>The threshold and the number of centres\<close>

lemma scan_centers_antimono:
  "e1 \<le> e2 \<Longrightarrow> scan_centers e2 us lae = Inr True \<Longrightarrow> scan_centers e1 us lae = Inr True"
  by (induction us) (auto split: sum.splits if_splits)

text \<open>
  Claim C5, as amended. The number of centres of a whole pass is not monotone in the
  threshold (see the counterexample below). What holds is monotonicity of one step: from
  the same registered centres \<open>cs\<close>, processing one vector with the larger threshold
  \<open>e2\<close> leaves no more centres than processing it with the smaller threshold \<open>e1\<close>.
\<close>

theorem C5_step_monotone:
  assumes "e1 \<le> e2"
    and "cluster_laes e1 a n [lae] cs = Inr cs1"
    and "cluster_laes e2 a n [lae] cs = Inr cs2"
  shows "length cs2 \<le> length cs1"
proof (cases lae)
  case None
  with assms(2) show ?thesis by simp
next
  case (Some v)
  show ?thesis
  proof (cases "scan_centers e2 (map snd cs) v = Inr True")
    case True
    then have "scan_centers e1 (map snd cs) v = Inr True"
      using assms(1) by (rule scan_centers_antimono[rotated])
    with True assms(2,3) Some show ?thesis by simp
  next
    case False
    with assms(3) Some have "cs2 = cs"
      by (auto split: sum.splits bool.splits)
    moreover have "length cs \<le> length cs1"
      using assms(2) Some
      by (auto simp: dict_set_length split: sum.splits bool.splits)
    ultimately show ?thesis by simp
  qed
qed

theorem C5_step_monotone_witness:
  "(10::real) \<le> 12
   \<and> cluster_laes 10 ''A'' 0 [Some [11, 0]] [((''0'', 0), [0, 0])]
       = Inr [((''0'', 0), [0, 0]), ((''A'', 0), [11, 0])]
   \<and> cluster_laes 12 ''A'' 0 [Some [11, 0]] [((''0'', 0), [0, 0])] = Inr [((''0'', 0), [0, 0])]
   \<and> length [((''0'', 0::nat), [0, 0::real])]
       \<le> length [((''0'', 0::nat), [0, 0::real]), ((''A'', 0), [11, 0])]"
proof -
  have h1: "(10::real) \<le> 12" by simp
  have h2: "cluster_laes 10 ''A'' 0 [Some [11, 0]] [((''0'', 0), [0, 0])]
       = Inr [((''0'', 0), [0, 0]), ((''A'', 0), [11, 0])]"
    by (simp add: np_sub_def np_norm_less_iff)
  have h3: "cluster_laes 12 ''A'' 0 [Some [11, 0]] [((''0'', 0), [0, 0])] = Inr [((''0'', 0), [0, 0])]"
    by (simp add: np_sub_def np_norm_less_iff)
  show ?thesis using C5_step_monotone[OF h1 h2 h3] h1 h2 h3 by simp
qed

text \<open>
  Claim C5 as stated fails: with the seed \<open>(0,0)\<close> and the stream \<open>(11,0), (11,9), (11,-9)\<close>
  of one configuration, the threshold 10 gives two centres and the larger threshold 12
  gives three.
\<close>

theorem C5_counterexample:
  "(10::real) \<le> 12
   \<and> cluster_collection (\<lambda>x. Some [Some [11, 0], Some [11, 9], Some [11, -9]]) 10 [''A'']
       [((''0'', 0), [0, 0])]
     = Inr [((''0'', 0), [0, 0]), ((''A'', 0), [11, 0])]
   \<and> cluster_collection (\<lambda>x. Some [Some [11, 0], Some [11, 9], Some [11, -9]]) 12 [''A'']
       [((''0'', 0), [0, 0])]
     = Inr [((''0'', 0), [0, 0]), ((''A'', 1), [11, 9]), ((''A'', 2), [11, -9])]"
  by (simp add: np_sub_def np_norm_less_iff)

section \<open>The early exit of the scan and the minimum distance\<close>

lemma np_sub_same_length: "length u = length v \<Longrightarrow> np_sub u v = Inr (map2 (-) u v)"
  by (simp add: np_sub_def)


lemma scan_centers_uniform:
  "\<forall>u\<in>set us. length u = length lae \<Longrightarrow>
   scan_centers e us lae = Inr (\<forall>u\<in>set us. \<not> np_norm (map2 (-) u lae) < e)"
  by (induction us) (simp_all add: np_sub_same_length)


lemma cluster_laes_uniform:
  "cluster_laes e a n laes cs = Inr cs' \<Longrightarrow>
   \<forall>v\<in>set (map snd cs). length v = d \<Longrightarrow>
   \<forall>v. Some v \<in> set laes \<longrightarrow> length v = d \<Longrightarrow>
   \<forall>v\<in>set (map snd cs'). length v = d"
proof (induction laes arbitrary: n cs)
  case Nil
  then show ?case by simp
next
  case (Cons l laes)
  show ?case
  proof (cases l)
    case None
    with Cons.prems(1) show ?thesis by simp
  next
    case (Some v)
    have lv: "length v = d" using Cons.prems(3) Some by simp
    have rest: "\<forall>v. Some v \<in> set laes \<longrightarrow> length v = d" using Cons.prems(3) by simp
    have upd: "\<forall>u\<in>set (map snd (dict_set (a, n) v cs)). length u = d"
      using dict_set_values[of "(a, n)" v cs] Cons.prems(2) lv by blast
    show ?thesis
    proof (cases "scan_centers e (map snd cs) v")
      case (Inl err)
      with Cons.prems(1) Some show ?thesis by simp
    next
      case (Inr b)
      show ?thesis
      proof (cases b)
        case True
        with Inr Some Cons.prems(1)
        have "cluster_laes e a (Suc n) laes (dict_set (a, n) v cs) = Inr cs'" by simp
        from Cons.IH[OF this upd rest] show ?thesis .
      next
        case False
        with Inr Some Cons.prems(1)
        have "cluster_laes e a (Suc n) laes cs = Inr cs'" by simp
        from Cons.IH[OF this Cons.prems(2) rest] show ?thesis .
      qed
    qed
  qed
qed















section \<open>A missing vector aborts the construction\<close>

lemma cluster_laes_None:
  "None \<in> set laes \<Longrightarrow> \<exists>err. cluster_laes e a n laes cs = Inl err"
proof (induction laes arbitrary: n cs)
  case Nil
  then show ?case by simp
next
  case (Cons l laes)
  show ?case
  proof (cases l)
    case None
    then show ?thesis by simp
  next
    case (Some v)
    with Cons.prems have "None \<in> set laes" by simp
    from Cons.IH[OF this] show ?thesis using Some
      by (simp split: sum.splits bool.splits)
  qed
qed

lemma cluster_collection_None:
  "x \<in> set aids \<Longrightarrow> get x = Some m \<Longrightarrow> None \<in> set m \<Longrightarrow>
   \<exists>err. cluster_collection get e aids cs = Inl err"
proof (induction aids arbitrary: cs)
  case Nil
  then show ?case by simp
next
  case (Cons a aids)
  show ?case
  proof (cases "get a")
    case None
    then show ?thesis by simp
  next
    case (Some laes)
    show ?thesis
    proof (cases "cluster_laes e a 0 laes cs")
      case (Inl err)
      then show ?thesis using Some by simp
    next
      case (Inr cs')
      have "x \<noteq> a"
        using Inr Some Cons.prems(2,3) cluster_laes_None[of laes e a 0 cs] by auto
      with Cons.prems(1) have "x \<in> set aids" by simp
      from Cons.IH[OF this Cons.prems(2,3)] show ?thesis using Some Inr by simp
    qed
  qed
qed

lemma build_artifact_clustering_fails:
  assumes "\<And>cs. \<exists>err. cluster_collection (get_laes w a) (arg_eps a) (map fst (arg_collection a)) cs = Inl err"
  shows "\<exists>err. build_artifact ev a w = (Inl err, w)"
proof (cases "resolve_seed ev a")
  case (Inl err)
  then show ?thesis by (simp add: build_artifact_def)
next
  case (Inr sd)
  obtain err where
    "cluster_collection (get_laes w a) (arg_eps a) (map fst (arg_collection a)) [((''0'', 0), sd)] = Inl err"
    using assms by blast
  then show ?thesis using Inr by (simp add: build_artifact_def)
qed

text \<open>
  Claim C6. Let no artifact be cached for the arguments. If some local-environment vector
  of some configuration of the collection is \<open>None\<close>, \<open>ler\<close> raises an error and leaves
  the store and the file system as it found them. Whenever the construction of the
  artifact raises an error, \<open>ler\<close> raises this error and the cached artifacts and the
  descriptions are what they were. And when the construction succeeds, the cache differs
  from the earlier one by the complete artifact under the key of the call, and by nothing
  else.
\<close>

theorem C6_missing_vector_aborts:
  assumes "temp w (cache_key a) = None"
  shows "(x \<in> set (map fst (arg_collection a)) \<longrightarrow> get_laes w a x = Some m \<longrightarrow> None \<in> set m
            \<longrightarrow> (\<exists>err. ler ev a w = (Inl err, w)))
       \<and> (\<forall>err w'. build_artifact ev a w = (Inl err, w')
            \<longrightarrow> ler ev a w = (Inl err, w') \<and> temp w' = temp w \<and> results w' = results w)
       \<and> (\<forall>U w'. build_artifact ev a w = (Inr U, w')
            \<longrightarrow> temp (snd (ler ev a w)) = (temp w)(cache_key a \<mapsto> U))"
proof (intro conjI impI allI)
  assume x: "x \<in> set (map fst (arg_collection a))" "get_laes w a x = Some m" "None \<in> set m"
  have "\<exists>err. cluster_collection (get_laes w a) (arg_eps a) (map fst (arg_collection a)) cs = Inl err" for cs
    using x by (rule cluster_collection_None)
  then obtain err where "build_artifact ev a w = (Inl err, w)"
    using build_artifact_clustering_fails by blast
  then show "\<exists>err. ler ev a w = (Inl err, w)" using assms by (simp add: ler_def)
next
  fix err w'
  assume b: "build_artifact ev a w = (Inl err, w')"
  then show "ler ev a w = (Inl err, w')" using assms by (simp add: ler_def)
  show "temp w' = temp w" and "results w' = results w"
    using b by (auto simp: build_artifact_def split: sum.splits)
next
  fix U w'
  assume b: "build_artifact ev a w = (Inr U, w')"
  then have "temp w' = temp w" by (auto simp: build_artifact_def split: sum.splits)
  then show "temp (snd (ler ev a w)) = (temp w)(cache_key a \<mapsto> U)"
    using b assms by (simp add: ler_def)
qed

text \<open>The definitions unfolded when an example is evaluated.\<close>

lemmas ex_defs = ex_env_def ex_args_def ex_world_def ex_results_def ex_atoms_A_def ex_atoms_B_def
  ex_artifact_def ex_world_cached_def ex_results_missing_def ex_results_short_def
  ex_results_empty_def ex_atoms_C_def ex_atoms_none_def ex_args_C_def ex_atoms_one_def
  ex_results_far_def ex_args_far_def ex_results_line_def ex_args_line_def
  ex_atoms_zero_def ex_results_zero_def ex_args_zero_def

lemmas ler_defs = ler_def cache_key_def calc_ler_def np_div_def build_artifact_def resolve_seed_def
  get_laes_def np_sub_def np_norm_less_iff exact_index_def exact_nns_def nearest_cluster_def
  bucket_append_def np_norm_def

theorem C6_missing_vector_aborts_witness:
  "get_laes (ex_world\<lparr>results := ex_results_missing\<rparr>) ex_args ''B'' = Some [Some [0, 2/10], None]
   \<and> ler ex_env ex_args (ex_world\<lparr>results := ex_results_missing\<rparr>)
       = (Inl RuntimeError, ex_world\<lparr>results := ex_results_missing\<rparr>)
   \<and> build_artifact ex_env ex_args (ex_world\<lparr>results := ex_results_short\<rparr>)
       = (Inl IndexError, ex_world\<lparr>results := ex_results_short, tmp_file := True\<rparr>)
   \<and> ler ex_env ex_args (ex_world\<lparr>results := ex_results_short\<rparr>)
       = (Inl IndexError, ex_world\<lparr>results := ex_results_short, tmp_file := True\<rparr>)
   \<and> temp (ex_world\<lparr>results := ex_results_short, tmp_file := True\<rparr>) = temp ex_world
   \<and> build_artifact ex_env ex_args ex_world = (Inr ex_artifact, ex_world)
   \<and> temp (snd (ler ex_env ex_args ex_world)) = (temp ex_world)(cache_key ex_args \<mapsto> ex_artifact)"
proof -
  let ?wm = "ex_world\<lparr>results := ex_results_missing\<rparr>"
  let ?ws = "ex_world\<lparr>results := ex_results_short\<rparr>"
  have m1: "temp ?wm (cache_key ex_args) = None" by (simp add: ex_world_def)
  have m2: "''B'' \<in> set (map fst (arg_collection ex_args))" by (simp add: ex_args_def)
  have m3: "get_laes ?wm ex_args ''B'' = Some [Some [0, 2/10], None]"
    by (simp add: get_laes_def ex_args_def ex_results_missing_def)
  have m4: "None \<in> set [Some [0, 2/10 :: real], None]" by simp
  have m5: "ler ex_env ex_args ?wm = (Inl RuntimeError, ?wm)"
    by (simp add: ler_defs ex_defs)
  have s1: "temp ?ws (cache_key ex_args) = None" by (simp add: ex_world_def)
  have s2: "build_artifact ex_env ex_args ?ws = (Inl IndexError, ?ws\<lparr>tmp_file := True\<rparr>)"
    by (simp add: ler_defs ex_defs)
  have e1: "temp ex_world (cache_key ex_args) = None" by (simp add: ex_world_def)
  have e2: "build_artifact ex_env ex_args ex_world = (Inr ex_artifact, ex_world)"
    by (simp add: ler_defs ex_defs numeral_2_eq_2)
  note missing = C6_missing_vector_aborts[OF m1, where x = "''B''" and ev = ex_env
      and m = "[Some [0, 2/10], None]"]
  note failing = C6_missing_vector_aborts[OF s1, where ev = ex_env]
  note success = C6_missing_vector_aborts[OF e1, where ev = ex_env]
  have "ler ex_env ex_args ?ws = (Inl IndexError, ?ws\<lparr>tmp_file := True\<rparr>)
      \<and> temp (?ws\<lparr>tmp_file := True\<rparr>) = temp ?ws"
    using failing s2 by blast
  moreover have "temp (snd (ler ex_env ex_args ex_world))
      = (temp ex_world)(cache_key ex_args \<mapsto> ex_artifact)"
    using success e2 by blast
  moreover have "\<exists>err. ler ex_env ex_args ?wm = (Inl err, ?wm)"
    using missing m2 m3 m4 by blast
  ultimately show ?thesis
    using m3 m5 s2 e2 by simp
qed

section \<open>The cached artifact and the seed\<close>

lemma cache_key_seed: "cache_key (a\<lparr>arg_seed := s\<rparr>) = cache_key a"
  by (simp add: cache_key_def)

lemma ler_caches:
  assumes "ler ev a w = (Inr h, w1)"
  shows "\<exists>U. temp w1 (cache_key a) = Some U"
proof (cases "temp w (cache_key a)")
  case (Some U)
  with assms show ?thesis by (auto simp: ler_def)
next
  case None
  obtain r w' where b: "build_artifact ev a w = (r, w')" by (cases "build_artifact ev a w")
  show ?thesis
  proof (cases r)
    case (Inl err)
    with assms None b show ?thesis by (simp add: ler_def)
  next
    case (Inr U)
    with assms None b show ?thesis by (auto simp: ler_def)
  qed
qed

lemma ler_cache_hit: "temp w (cache_key a) = Some U \<Longrightarrow> ler ev a w = (calc_ler (arg_atoms a) U, w)"
  by (simp add: ler_def)

text \<open>
  Claim C10. The key under which the artifact is cached does not contain the seed. After an
  invocation of \<open>ler\<close> that returned a histogram, every invocation on the resulting store
  whose arguments give the same key (the same collection, \<open>eps\<close>, \<open>res_needed\<close>, \<open>soap_fcn\<close>,
  \<open>metric\<close>, \<open>n_trees\<close>, \<open>search_k\<close> and \<open>soapargs\<close>; any atoms, any seed) computes its
  histogram from the artifact that is cached, leaves the store as it is, and returns the
  same whatever its own seed argument is.
\<close>

theorem C10_cache_key_omits_seed:
  assumes "ler ev a1 w = (Inr h1, w1)"
    and "cache_key a2 = cache_key a1"
  shows "\<exists>U. temp w1 (cache_key a1) = Some U
           \<and> ler ev2 a2 w1 = (calc_ler (arg_atoms a2) U, w1)
           \<and> ler ev2 (a2\<lparr>arg_seed := s\<rparr>) w1 = ler ev2 a2 w1"
proof -
  obtain U where U: "temp w1 (cache_key a1) = Some U"
    using ler_caches[OF assms(1)] by blast
  have "ler ev2 a2 w1 = (calc_ler (arg_atoms a2) U, w1)"
    using U assms(2) by (simp add: ler_cache_hit)
  moreover have "ler ev2 (a2\<lparr>arg_seed := s\<rparr>) w1 = (calc_ler (arg_atoms a2) U, w1)"
    using U assms(2) by (simp add: ler_cache_hit cache_key_seed)
  ultimately show ?thesis using U by simp
qed

lemma ex_ler_A: "ler ex_env ex_args ex_world = (Inr [Finite (1/3), Finite (2/3)], ex_world_cached)"
  by (simp add: ler_defs ex_defs numeral_2_eq_2)

theorem C10_cache_key_omits_seed_witness:
  "ler ex_env ex_args ex_world = (Inr [Finite (1/3), Finite (2/3)], ex_world_cached)
   \<and> cache_key (ex_args\<lparr>arg_atoms := ex_atoms_B, arg_seed := Some [5, 5]\<rparr>) = cache_key ex_args
   \<and> temp ex_world_cached (cache_key ex_args) = Some ex_artifact
   \<and> ler ex_env (ex_args\<lparr>arg_atoms := ex_atoms_B, arg_seed := Some [5, 5]\<rparr>) ex_world_cached
       = (Inr [Finite (1/2), Finite (1/2)], ex_world_cached)
   \<and> ler ex_env (ex_args\<lparr>arg_atoms := ex_atoms_B, arg_seed := None\<rparr>) ex_world_cached
       = (Inr [Finite (1/2), Finite (1/2)], ex_world_cached)"
proof -
  let ?a2 = "ex_args\<lparr>arg_atoms := ex_atoms_B, arg_seed := Some [5, 5]\<rparr>"
  have h1: "ler ex_env ex_args ex_world = (Inr [Finite (1/3), Finite (2/3)], ex_world_cached)"
    by (rule ex_ler_A)
  have h2: "cache_key ?a2 = cache_key ex_args" by (simp add: cache_key_def)
  have t: "temp ex_world_cached (cache_key ex_args) = Some ex_artifact"
    by (simp add: ex_world_cached_def)
  have c: "calc_ler ex_atoms_B ex_artifact = Inr [Finite (1/2), Finite (1/2)]"
    by (simp add: calc_ler_def np_div_def ex_atoms_B_def ex_artifact_def)
  have u: "?a2\<lparr>arg_seed := None\<rparr> = ex_args\<lparr>arg_atoms := ex_atoms_B, arg_seed := None\<rparr>" by simp
  show ?thesis
    using C10_cache_key_omits_seed[OF h1 h2, of ex_env None] h1 h2 t c u by auto
qed

section \<open>The temporary file of the index\<close>

text \<open>
  Claim C8, as amended. When the construction of the artifact succeeds, the file \<open>tmp\<close> does
  not exist afterwards, and nothing else of the world has changed. The source has no
  release on the paths that leave the construction by an error.
\<close>

theorem C8_tmp_removed_on_success:
  assumes "build_artifact ev a w = (Inr U, w')"
  shows "w' = w\<lparr>tmp_file := False\<rparr>"
  using assms
  by (auto simp: build_artifact_def split: sum.splits)

theorem C8_tmp_removed_on_success_witness:
  "build_artifact ex_env ex_args (ex_world\<lparr>tmp_file := True\<rparr>)
     = (Inr ex_artifact, ex_world)
   \<and> ex_world = ex_world\<lparr>tmp_file := True\<rparr>\<lparr>tmp_file := False\<rparr>
   \<and> \<not> tmp_file ex_world"
proof -
  have h: "build_artifact ex_env ex_args (ex_world\<lparr>tmp_file := True\<rparr>)
     = (Inr ex_artifact, ex_world)"
    by (simp add: ler_defs ex_defs numeral_2_eq_2)
  show ?thesis
    using C8_tmp_removed_on_success[OF h] h by (simp add: ex_world_def)
qed

text \<open>
  Claim C8 as stated fails: the only vector of configuration \<open>A\<close> has one component, so the
  subtraction of part 1 broadcasts it against the seed and the clustering succeeds, the index
  is built with dimension 2 and saved, and the first query in part 2 raises. The file \<open>tmp\<close>,
  which did not exist before, exists when \<open>ler\<close> has raised.
\<close>

theorem C8_counterexample:
  "tmp_file (ex_world\<lparr>results := ex_results_short\<rparr>) = False
   \<and> ler ex_env ex_args (ex_world\<lparr>results := ex_results_short\<rparr>)
       = (Inl IndexError, ex_world\<lparr>results := ex_results_short, tmp_file := True\<rparr>)
   \<and> tmp_file (snd (ler ex_env ex_args (ex_world\<lparr>results := ex_results_short\<rparr>))) = True"
  by (simp add: ler_defs ex_defs)

section \<open>The buckets of the classification\<close>

lemma nearest_cluster_in_keys: "nearest_cluster nns keys lae = Inr c \<Longrightarrow> c \<in> set keys"
  by (auto simp: nearest_cluster_def split: option.splits sum.splits list.splits if_splits)

lemma assign_laes_mset:
  "assign_laes nns keys a n laes cl = Inr cl' \<Longrightarrow>
   mset (concat (map snd cl'))
     = mset (concat (map snd cl)) + mset (map (Pair a) [n..<n + length laes])"
proof (induction laes arbitrary: n cl)
  case Nil
  then show ?case by simp
next
  case (Cons l laes)
  from Cons.prems obtain c where
    c: "nearest_cluster nns keys l = Inr c" and
    r: "assign_laes nns keys a (Suc n) laes (bucket_append c (a, n) cl) = Inr cl'"
    by (auto split: sum.splits)
  have "[n..<Suc (n + length laes)] = n # [Suc n..<Suc (n + length laes)]"
    by (rule upt_conv_Cons) simp
  then show ?case
    using Cons.IH[OF r] by (simp add: bucket_append_mset)
qed

lemma assign_laes_invariant:
  assumes "assign_laes nns keys a n laes cl = Inr cl'"
    and "P cl"
    and "\<And>c x d. c \<in> set keys \<Longrightarrow> P d \<Longrightarrow> P (bucket_append c x d)"
  shows "P cl'"
  using assms(1,2)
proof (induction laes arbitrary: n cl)
  case Nil
  then show ?case by simp
next
  case (Cons l laes)
  from Cons.prems(1) obtain c where
    c: "nearest_cluster nns keys l = Inr c" and
    r: "assign_laes nns keys a (Suc n) laes (bucket_append c (a, n) cl) = Inr cl'"
    by (auto split: sum.splits)
  have "P (bucket_append c (a, n) cl)"
    using nearest_cluster_in_keys[OF c] Cons.prems(2) by (rule assms(3))
  from Cons.IH[OF r this] show ?case .
qed

lemma collection_ids_Cons:
  "collection_ids get (a # aids)
     = (case get a of None \<Rightarrow> [] | Some laes \<Rightarrow> map (Pair a) [0..<length laes])
       @ collection_ids get aids"
  by (simp add: collection_ids_def)

lemma assign_collection_mset:
  "assign_collection nns keys get aids cl = Inr cl' \<Longrightarrow>
   mset (concat (map snd cl')) = mset (concat (map snd cl)) + mset (collection_ids get aids)"
proof (induction aids arbitrary: cl)
  case Nil
  then show ?case by (simp add: collection_ids_def)
next
  case (Cons a aids)
  from Cons.prems obtain laes d where
    g: "get a = Some laes" and
    l: "assign_laes nns keys a 0 laes cl = Inr d" and
    r: "assign_collection nns keys get aids d = Inr cl'"
    by (auto split: option.splits sum.splits)
  show ?case
    using Cons.IH[OF r] assign_laes_mset[OF l] g
    by (simp add: collection_ids_Cons)
qed

lemma assign_collection_invariant:
  assumes "assign_collection nns keys get aids cl = Inr cl'"
    and "P cl"
    and "\<And>c x d. c \<in> set keys \<Longrightarrow> P d \<Longrightarrow> P (bucket_append c x d)"
  shows "P cl'"
  using assms(1,2)
proof (induction aids arbitrary: cl)
  case Nil
  then show ?case by simp
next
  case (Cons a aids)
  from Cons.prems(1) obtain laes d where
    l: "assign_laes nns keys a 0 laes cl = Inr d" and
    r: "assign_collection nns keys get aids d = Inr cl'"
    by (auto split: option.splits sum.splits)
  have "P d" using l Cons.prems(2) assms(3) by (rule assign_laes_invariant)
  from Cons.IH[OF r this] show ?case .
qed

lemma assign_collection_keys:
  assumes "assign_collection nns keys get aids [] = Inr cl'"
  shows "distinct (map fst cl') \<and> set (map fst cl') \<subseteq> set keys \<and> [] \<notin> set (map snd cl')"
proof -
  let ?P = "\<lambda>d :: (lae_id \<times> lae_id list) list. distinct (map fst d) \<and> set (map fst d) \<subseteq> set keys \<and> [] \<notin> set (map snd d)"
  have "?P cl'"
  proof (rule assign_collection_invariant[OF assms, where P = ?P])
    show "?P []" by simp
  next
    fix c x d
    assume c: "c \<in> set keys" and d: "?P d"
    have "distinct (map fst (bucket_append c x d))"
      using d by (simp add: bucket_append_keys)
    moreover have "set (map fst (bucket_append c x d)) \<subseteq> set keys"
      using c d by (simp add: bucket_append_keys)
    moreover have "[] \<notin> set (map snd (bucket_append c x d))"
      using d by (intro bucket_append_nonempty) simp
    ultimately show "?P (bucket_append c x d)" by simp
  qed
  then show ?thesis .
qed

lemma collection_ids_distinct: "distinct aids \<Longrightarrow> distinct (collection_ids get aids)"
proof (induction aids)
  case Nil
  then show ?case by (simp add: collection_ids_def)
next
  case (Cons a aids)
  have fst_ids: "fst ` set (collection_ids get aids) \<subseteq> set aids" for aids
    by (auto simp: collection_ids_def split: option.splits)
  have "a \<notin> fst ` set (collection_ids get aids)"
    using fst_ids[of aids] Cons.prems by auto
  then have disj: "set (map (Pair a) [0..<k]) \<inter> set (collection_ids get aids) = {}" for k
    by force
  have "distinct (map (Pair a) [0..<k])" for k
    by (simp add: distinct_map inj_on_def)
  then show ?case
    using Cons disj by (simp add: collection_ids_Cons split: option.splits)
qed

lemma members_of_collection_ids:
  "get x = Some m \<Longrightarrow>
   members_of x (collection_ids get aids) = count_list aids x * length m"
proof (induction aids)
  case Nil
  then show ?case by (simp add: collection_ids_def members_of_def)
next
  case (Cons a aids)
  have here: "filter (\<lambda>c. fst c = x) (map (Pair a) [0..<k]) = (if a = x then map (Pair a) [0..<k] else [])" for k
    by (induction k) auto
  show ?case
    using Cons by (auto simp: collection_ids_Cons members_of_def here split: option.splits)
qed

lemma members_of_buckets:
  "(\<Sum>(k, b)\<leftarrow>cl. members_of x b) = members_of x (concat (map snd cl))"
  by (induction cl) (auto simp: members_of_def)

lemma members_of_mset: "mset xs = mset ys \<Longrightarrow> members_of x xs = members_of x ys"
proof -
  assume "mset xs = mset ys"
  then have "size (filter_mset (\<lambda>c. fst c = x) (mset xs)) = size (filter_mset (\<lambda>c. fst c = x) (mset ys))"
    by simp
  then show ?thesis by (simp add: members_of_def flip: mset_filter)
qed

section \<open>The partition property\<close>

lemma build_artifact_success:
  assumes "build_artifact ev a w = (Inr U, w')"
  obtains sd idx where
    "resolve_seed ev a = Inr sd"
    "cluster_collection (get_laes w a) (arg_eps a) (map fst (arg_collection a)) [((''0'', 0), sd)]
       = Inr (centers U)"
    "annoy_index ev (length sd) (arg_metric a) (arg_n_trees a) (map snd (centers U)) = Inr idx"
    "assign_collection (\<lambda>v. idx v (arg_search_k a)) (map fst (centers U)) (get_laes w a)
       (map fst (arg_collection a)) [] = Inr (clusters U)"
  using assms
  by (auto simp: build_artifact_def split: sum.splits)

lemma built_buckets:
  assumes "build_artifact ev a w = (Inr U, w')"
  shows "mset (concat (map snd (clusters U)))
           = mset (collection_ids (get_laes w a) (map fst (arg_collection a)))"
    and "distinct (map fst (clusters U))"
    and "set (map fst (clusters U)) \<subseteq> set (map fst (centers U))"
    and "[] \<notin> set (map snd (clusters U))"
proof -
  from assms obtain sd idx where
    asg: "assign_collection (\<lambda>v. idx v (arg_search_k a)) (map fst (centers U)) (get_laes w a)
       (map fst (arg_collection a)) [] = Inr (clusters U)"
    by (rule build_artifact_success)
  show "mset (concat (map snd (clusters U)))
           = mset (collection_ids (get_laes w a) (map fst (arg_collection a)))"
    using assign_collection_mset[OF asg] by simp
  show "distinct (map fst (clusters U))"
    and "set (map fst (clusters U)) \<subseteq> set (map fst (centers U))"
    and "[] \<notin> set (map snd (clusters U))"
    using assign_collection_keys[OF asg] by simp_all
qed

lemma built_members:
  assumes "build_artifact ev a w = (Inr U, w')" and "get_laes w a x = Some m"
  shows "(\<Sum>(k, b)\<leftarrow>clusters U. members_of x b)
           = count_list (map fst (arg_collection a)) x * length m"
  using built_buckets(1)[OF assms(1)] assms(2)
  by (simp add: members_of_buckets members_of_mset[of "concat (map snd (clusters U))"]
        members_of_collection_ids)

lemma count_list_distinct: "distinct xs \<Longrightarrow> x \<in> set xs \<Longrightarrow> count_list xs x = 1"
  by (induction xs) (auto simp: count_list_0_iff)

text \<open>
  Claim C3. After a construction that succeeded, on a collection whose configurations have
  distinct names (it is a dictionary): the buckets together hold exactly the identifiers
  \<open>(aid, lae_num)\<close> of all local environments of the collection, none of them twice, so
  every identifier is in exactly one bucket; for every configuration of the collection the
  membership counts of its identifiers, summed over the buckets, give the number of its
  vectors; and every bucket key is the key of a centre.
\<close>

theorem C3_partition:
  assumes "build_artifact ev a w = (Inr U, w')"
    and "distinct (map fst (arg_collection a))"
  shows "mset (concat (map snd (clusters U)))
           = mset (collection_ids (get_laes w a) (map fst (arg_collection a)))
       \<and> distinct (concat (map snd (clusters U)))
       \<and> distinct (map fst (clusters U))
       \<and> (\<forall>x m. x \<in> set (map fst (arg_collection a)) \<longrightarrow> get_laes w a x = Some m
            \<longrightarrow> (\<Sum>(k, b)\<leftarrow>clusters U. members_of x b) = length m)
       \<and> set (map fst (clusters U)) \<subseteq> set (map fst (centers U))"
proof -
  note b = built_buckets[OF assms(1)]
  have "distinct (collection_ids (get_laes w a) (map fst (arg_collection a)))"
    using assms(2) by (rule collection_ids_distinct)
  then have d: "distinct (concat (map snd (clusters U)))"
    using b(1) mset_eq_imp_distinct_iff by blast
  have "(\<Sum>(k, b)\<leftarrow>clusters U. members_of x b) = length m"
    if "x \<in> set (map fst (arg_collection a))" and "get_laes w a x = Some m" for x m
    using built_members[OF assms(1) that(2)] count_list_distinct[OF assms(2) that(1)] by simp
  then show ?thesis using b d by blast
qed

theorem C3_partition_witness:
  "build_artifact ex_env ex_args ex_world = (Inr ex_artifact, ex_world)
   \<and> distinct (map fst (arg_collection ex_args))
   \<and> mset (concat (map snd (clusters ex_artifact)))
       = mset [(''A'', 0), (''A'', 1), (''A'', 2), (''B'', 0), (''B'', 1)]
   \<and> distinct (concat (map snd (clusters ex_artifact)))
   \<and> (\<Sum>(k, b)\<leftarrow>clusters ex_artifact. members_of ''A'' b) = 3
   \<and> (\<Sum>(k, b)\<leftarrow>clusters ex_artifact. members_of ''B'' b) = 2
   \<and> set (map fst (clusters ex_artifact)) \<subseteq> set (map fst (centers ex_artifact))"
proof -
  have h1: "build_artifact ex_env ex_args ex_world = (Inr ex_artifact, ex_world)"
    by (simp add: ler_defs ex_defs numeral_2_eq_2)
  have h2: "distinct (map fst (arg_collection ex_args))"
    by (simp add: ex_args_def)
  have ids: "collection_ids (get_laes ex_world ex_args) (map fst (arg_collection ex_args))
      = [(''A'', 0), (''A'', 1), (''A'', 2), (''B'', 0), (''B'', 1)]"
    by (simp add: collection_ids_def get_laes_def ex_defs upt_rec numeral_2_eq_2)
  have gA: "get_laes ex_world ex_args ''A'' = Some [Some [1/10, 1/10], Some [5, 5], Some [51/10, 51/10]]"
    by (simp add: get_laes_def ex_defs)
  have gB: "get_laes ex_world ex_args ''B'' = Some [Some [0, 2/10], Some [5, 52/10]]"
    by (simp add: get_laes_def ex_defs)
  have mA: "''A'' \<in> set (map fst (arg_collection ex_args))" by (simp add: ex_args_def)
  have mB: "''B'' \<in> set (map fst (arg_collection ex_args))" by (simp add: ex_args_def)
  note c3 = C3_partition[OF h1 h2]
  show ?thesis
    using c3 h1 h2 ids gA gB mA mB by auto
qed

section \<open>Cached artifacts and the histogram\<close>

lemma build_artifact_world:
  "build_artifact ev a w = (r, w') \<Longrightarrow> results w' = results w \<and> temp w' = temp w"
  by (auto simp: build_artifact_def split: sum.splits)

lemma ler_results: "results (snd (ler ev a w)) = results w"
proof (cases "build_artifact ev a w")
  case (Pair r w')
  then show ?thesis
    using build_artifact_world[OF Pair]
    by (simp add: ler_def split: option.splits sum.splits)
qed

lemma built_by_results: "results w' = results w \<Longrightarrow> built_by w' k U = built_by w k U"
  by (simp add: built_by_def)

lemma ler_artifact:
  assumes "cache_valid w" and "temp (snd (ler ev a w)) (cache_key a) = Some U"
  shows "built_by w (cache_key a) U" and "fst (ler ev a w) = calc_ler (arg_atoms a) U"
proof -
  have "built_by w (cache_key a) U \<and> fst (ler ev a w) = calc_ler (arg_atoms a) U"
  proof (cases "temp w (cache_key a)")
    case (Some V)
    then have "ler ev a w = (calc_ler (arg_atoms a) V, w)" by (simp add: ler_def)
    with assms Some show ?thesis by (simp add: cache_valid_def)
  next
    case None
    obtain r w' where b: "build_artifact ev a w = (r, w')" by (cases "build_artifact ev a w")
    note bw = build_artifact_world[OF b]
    show ?thesis
    proof (cases r)
      case (Inl err)
      with None b have "snd (ler ev a w) = w'" by (simp add: ler_def)
      with assms(2) bw None show ?thesis by simp
    next
      case (Inr V)
      with None b have l: "ler ev a w = (calc_ler (arg_atoms a) V, w'\<lparr>temp := (temp w')(cache_key a \<mapsto> V)\<rparr>)"
        by (simp add: ler_def)
      with assms(2) have "V = U" by simp
      moreover have "built_by w (cache_key a) V"
        unfolding built_by_def using b Inr by blast
      ultimately show ?thesis using l by simp
    qed
  qed
  then show "built_by w (cache_key a) U" and "fst (ler ev a w) = calc_ler (arg_atoms a) U"
    by simp_all
qed

lemma ler_cache_valid:
  assumes "cache_valid w"
  shows "cache_valid (snd (ler ev a w))"
proof -
  have "built_by (snd (ler ev a w)) k U" if t: "temp (snd (ler ev a w)) k = Some U" for k U
  proof (cases "k = cache_key a")
    case True
    with t assms have "built_by w k U" using ler_artifact(1) by blast
    then show ?thesis by (simp add: built_by_results[OF ler_results])
  next
    case False
    obtain r w' where b: "build_artifact ev a w = (r, w')" by (cases "build_artifact ev a w")
    have "temp (snd (ler ev a w)) k = temp w k"
      using False b build_artifact_world[OF b]
      by (simp add: ler_def split: option.splits sum.splits)
    with t assms have "built_by w k U" by (simp add: cache_valid_def)
    then show ?thesis by (simp add: built_by_results[OF ler_results])
  qed
  then show ?thesis by (simp add: cache_valid_def)
qed

lemma cache_valid_empty: "temp w = (\<lambda>k. None) \<Longrightarrow> cache_valid w"
  by (simp add: cache_valid_def)

lemma built_by_members:
  assumes "built_by w (cache_key a) U" and "get_laes w a x = Some m"
  shows "(\<Sum>(k, b)\<leftarrow>clusters U. members_of x b)
           = count_list (map fst (arg_collection a)) x * length m"
    and "distinct (map fst (clusters U))"
    and "set (map fst (clusters U)) \<subseteq> set (map fst (centers U))"
    and "[] \<notin> set (map snd (clusters U))"
proof -
  from assms(1) obtain ev0 a0 w0 w1 where
    k: "cache_key a0 = cache_key a" and r: "results w0 = results w" and
    b: "build_artifact ev0 a0 w0 = (Inr U, w1)"
    unfolding built_by_def by blast
  from k have c: "arg_collection a0 = arg_collection a"
    and "arg_res_needed a0 = arg_res_needed a" and "arg_soapargs a0 = arg_soapargs a"
    by (simp_all add: cache_key_def)
  then have g: "get_laes w0 a0 x = Some m"
    using r assms(2) by (simp add: get_laes_def)
  show "(\<Sum>(k, b)\<leftarrow>clusters U. members_of x b)
           = count_list (map fst (arg_collection a)) x * length m"
    using built_members[OF b g] c by simp
  show "distinct (map fst (clusters U))"
    and "set (map fst (clusters U)) \<subseteq> set (map fst (centers U))"
    and "[] \<notin> set (map snd (clusters U))"
    using built_buckets(2,3,4)[OF b] by simp_all
qed

lemma sum_list_real: "(\<Sum>p\<leftarrow>cl. real (g p)) = real (\<Sum>p\<leftarrow>cl. g p)"
  by (induction cl) auto

lemma calc_ler_members:
  assumes "aid_array ats = x # xs"
  shows "calc_ler ats U
           = Inr (map (\<lambda>(k, b). np_div (real (members_of x b))
                                  (real (\<Sum>(k, b)\<leftarrow>clusters U. members_of x b)))
                    (clusters U))"
  using assms
  by (simp add: calc_ler_def Let_def members_of_def split_def sum_list_real)

lemma calc_ler_positive:
  assumes "aid_array ats = x # xs" and "(\<Sum>(k, b)\<leftarrow>clusters U. members_of x b) = t" and "0 < t"
  shows "calc_ler ats U
           = Inr (map (\<lambda>(k, b). Finite (real (members_of x b) / real t)) (clusters U))"
proof -
  have "calc_ler ats U
          = Inr (map (\<lambda>(k, b). np_div (real (members_of x b)) (real t)) (clusters U))"
    by (simp only: calc_ler_members[OF assms(1)] assms(2))
  then show ?thesis using assms(3) by (simp add: np_div_def)
qed

lemma calc_ler_zero:
  assumes "aid_array ats = x # xs" and "(\<Sum>(k, b)\<leftarrow>clusters U. members_of x b) = 0"
  shows "calc_ler ats U = Inr (replicate (length (clusters U)) NaN)"
proof -
  have z: "\<forall>p\<in>set (clusters U). members_of x (snd p) = 0"
    using assms(2) by (auto simp: sum_list_eq_0_iff split_def)
  have "calc_ler ats U
          = Inr (map (\<lambda>(k, b). np_div (real (members_of x b)) (real 0)) (clusters U))"
    by (simp only: calc_ler_members[OF assms(1)] assms(2))
  also have "map (\<lambda>(k, b). np_div (real (members_of x b)) (real 0)) (clusters U)
          = map (\<lambda>p. NaN) (clusters U)"
    using z by (intro map_cong) (auto simp: np_div_def)
  finally show ?thesis by (simp add: map_replicate_const)
qed

lemma sum_list_fractions:
  "(\<Sum>(k, b)\<leftarrow>cl. real (f b) / t) = real (\<Sum>(k, b)\<leftarrow>cl. f b) / t"
  by (induction cl) (auto simp: add_divide_distrib)

lemma length_le_of_keys:
  assumes "distinct (map fst cl)" and "set (map fst cl) \<subseteq> set (map fst cs)"
  shows "length cl \<le> length cs"
proof -
  have "length cl = card (set (map fst cl))"
    using assms(1) distinct_card[of "map fst cl"] by simp
  also have "\<dots> \<le> card (set (map fst cs))"
    using assms(2) by (intro card_mono) simp_all
  also have "\<dots> \<le> length cs"
    using card_length[of "map fst cs"] by simp
  finally show ?thesis .
qed

section \<open>Normalisation of the histogram\<close>

text \<open>
  Claim C4. On a store whose cached artifacts were constructed by \<open>ler\<close>, when \<open>ler\<close> returns
  a histogram for a configuration of the collection that has at least one local vector,
  every entry is a finite number and the entries sum to 1 (in exact arithmetic).
\<close>

theorem C4_normalization:
  assumes "cache_valid w"
    and "ler ev a w = (Inr h, w')"
    and "aid_array (arg_atoms a) = x # xs"
    and "x \<in> set (map fst (arg_collection a))"
    and "get_laes w a x = Some m"
    and "m \<noteq> []"
  shows "\<exists>rs. h = map Finite rs \<and> sum_list rs = 1"
proof -
  obtain U where U: "temp w' (cache_key a) = Some U"
    using ler_caches[OF assms(2)] by blast
  then have t: "temp (snd (ler ev a w)) (cache_key a) = Some U"
    using assms(2) by simp
  note art = ler_artifact[OF assms(1) t]
  define t where "t = (\<Sum>(k, b)\<leftarrow>clusters U. members_of x b)"
  have "t = count_list (map fst (arg_collection a)) x * length m"
    unfolding t_def using built_by_members(1)[OF art(1) assms(5)] .
  moreover have "0 < count_list (map fst (arg_collection a)) x"
    using assms(4) count_list_0_iff[of "map fst (arg_collection a)" x] by simp
  ultimately have pos: "0 < t" using assms(6) by simp
  define rs where "rs = map (\<lambda>(k, b). real (members_of x b) / real t) (clusters U)"
  have "calc_ler (arg_atoms a) U
          = Inr (map (\<lambda>(k, b). Finite (real (members_of x b) / real t)) (clusters U))"
    using assms(3) t_def[symmetric] pos by (rule calc_ler_positive)
  then have "h = map (\<lambda>(k, b). Finite (real (members_of x b) / real t)) (clusters U)"
    using art(2) assms(2) by simp
  then have h: "h = map Finite rs"
    by (simp add: rs_def split_def comp_def)
  have "sum_list rs = real t / real t"
    unfolding rs_def t_def by (rule sum_list_fractions)
  then have "sum_list rs = 1" using pos by simp
  with h show ?thesis by blast
qed

lemma ex_cached_valid: "cache_valid ex_world_cached"
proof -
  have "cache_valid ex_world" by (rule cache_valid_empty) (simp add: ex_world_def)
  then have "cache_valid (snd (ler ex_env ex_args ex_world))" by (rule ler_cache_valid)
  then show ?thesis by (simp add: ex_ler_A)
qed

lemma ex_ler_B_cached:
  "ler ex_env (ex_args\<lparr>arg_atoms := ex_atoms_B\<rparr>) ex_world_cached
     = (Inr [Finite (1/2), Finite (1/2)], ex_world_cached)"
proof -
  have "temp ex_world_cached (cache_key (ex_args\<lparr>arg_atoms := ex_atoms_B\<rparr>)) = Some ex_artifact"
    by (simp add: ex_world_cached_def cache_key_def)
  moreover have "calc_ler ex_atoms_B ex_artifact = Inr [Finite (1/2), Finite (1/2)]"
    by (simp add: calc_ler_def np_div_def ex_atoms_B_def ex_artifact_def)
  ultimately show ?thesis by (simp add: ler_cache_hit)
qed

theorem C4_normalization_witness:
  "cache_valid ex_world_cached
   \<and> ler ex_env (ex_args\<lparr>arg_atoms := ex_atoms_B\<rparr>) ex_world_cached
       = (Inr [Finite (1/2), Finite (1/2)], ex_world_cached)
   \<and> aid_array (arg_atoms (ex_args\<lparr>arg_atoms := ex_atoms_B\<rparr>)) = [''B'', ''B'']
   \<and> ''B'' \<in> set (map fst (arg_collection (ex_args\<lparr>arg_atoms := ex_atoms_B\<rparr>)))
   \<and> get_laes ex_world_cached (ex_args\<lparr>arg_atoms := ex_atoms_B\<rparr>) ''B''
       = Some [Some [0, 2/10], Some [5, 52/10]]
   \<and> (\<exists>rs. [Finite (1/2), Finite (1/2)] = map Finite rs \<and> sum_list rs = 1)"
proof -
  let ?a = "ex_args\<lparr>arg_atoms := ex_atoms_B\<rparr>"
  have h1: "cache_valid ex_world_cached" by (rule ex_cached_valid)
  have h2: "ler ex_env ?a ex_world_cached = (Inr [Finite (1/2), Finite (1/2)], ex_world_cached)"
    by (rule ex_ler_B_cached)
  have h3: "aid_array (arg_atoms ?a) = ''B'' # [''B'']" by (simp add: ex_atoms_B_def)
  have h4: "''B'' \<in> set (map fst (arg_collection ?a))" by (simp add: ex_args_def)
  have h5: "get_laes ex_world_cached ?a ''B'' = Some [Some [0, 2/10], Some [5, 52/10]]"
    by (simp add: get_laes_def ex_defs)
  have h6: "[Some [0, 2/10], Some [5, 52/10 :: real]] \<noteq> []" by simp
  show ?thesis
    using C4_normalization[OF h1 h2 h3 h4 h5 h6] h1 h2 h3 h4 h5 by simp
qed

section \<open>The entries of the histogram\<close>

text \<open>
  Claim C2, as amended. On a store whose cached artifacts were constructed by \<open>ler\<close>, when
  \<open>ler\<close> returns a histogram for a configuration of the collection (configurations with
  distinct names) that has at least one local vector, the histogram has one entry for every
  bucket of the artifact, in the order of the bucket dictionary; a bucket exists only for a
  centre that received a vector, so the length is at most the number of centres; the entry
  of a bucket is the number of the configuration's vectors in it divided by the number of
  the configuration's vectors.
\<close>

theorem C2_histogram_over_buckets:
  assumes "cache_valid w"
    and "ler ev a w = (Inr h, w')"
    and "aid_array (arg_atoms a) = x # xs"
    and "x \<in> set (map fst (arg_collection a))"
    and "distinct (map fst (arg_collection a))"
    and "get_laes w a x = Some m"
    and "m \<noteq> []"
  shows "\<exists>U. temp w' (cache_key a) = Some U
           \<and> h = map (\<lambda>(k, b). Finite (real (members_of x b) / real (length m))) (clusters U)
           \<and> [] \<notin> set (map snd (clusters U))
           \<and> set (map fst (clusters U)) \<subseteq> set (map fst (centers U))
           \<and> length h \<le> length (centers U)"
proof -
  obtain U where U: "temp w' (cache_key a) = Some U"
    using ler_caches[OF assms(2)] by blast
  then have t: "temp (snd (ler ev a w)) (cache_key a) = Some U"
    using assms(2) by simp
  note art = ler_artifact[OF assms(1) t]
  note bm = built_by_members[OF art(1) assms(6)]
  have total: "(\<Sum>(k, b)\<leftarrow>clusters U. members_of x b) = length m"
    using bm(1) count_list_distinct[OF assms(5,4)] by simp
  have "0 < length m" using assms(7) by simp
  with assms(3) total
  have "calc_ler (arg_atoms a) U
          = Inr (map (\<lambda>(k, b). Finite (real (members_of x b) / real (length m))) (clusters U))"
    by (rule calc_ler_positive)
  then have h: "h = map (\<lambda>(k, b). Finite (real (members_of x b) / real (length m))) (clusters U)"
    using art(2) assms(2) by simp
  have "length (clusters U) \<le> length (centers U)"
    using bm(2,3) by (rule length_le_of_keys)
  then have "length h \<le> length (centers U)" using h by simp
  with U h bm(3,4) show ?thesis by blast
qed

theorem C2_histogram_over_buckets_witness:
  "cache_valid ex_world
   \<and> ler ex_env ex_args ex_world = (Inr [Finite (1/3), Finite (2/3)], ex_world_cached)
   \<and> aid_array (arg_atoms ex_args) = [''A'', ''A'', ''A'']
   \<and> ''A'' \<in> set (map fst (arg_collection ex_args))
   \<and> distinct (map fst (arg_collection ex_args))
   \<and> get_laes ex_world ex_args ''A'' = Some [Some [1/10, 1/10], Some [5, 5], Some [51/10, 51/10]]
   \<and> temp ex_world_cached (cache_key ex_args) = Some ex_artifact
   \<and> [Finite (1/3), Finite (2/3)]
       = map (\<lambda>(k, b). Finite (real (members_of ''A'' b) / real (length [0, 1, 2::nat])))
           (clusters ex_artifact)"
proof -
  have h1: "cache_valid ex_world" by (rule cache_valid_empty) (simp add: ex_world_def)
  have h2: "ler ex_env ex_args ex_world = (Inr [Finite (1/3), Finite (2/3)], ex_world_cached)"
    by (rule ex_ler_A)
  have h3: "aid_array (arg_atoms ex_args) = ''A'' # [''A'', ''A'']" by (simp add: ex_defs)
  have h4: "''A'' \<in> set (map fst (arg_collection ex_args))" by (simp add: ex_args_def)
  have h5: "distinct (map fst (arg_collection ex_args))" by (simp add: ex_args_def)
  have h6: "get_laes ex_world ex_args ''A'' = Some [Some [1/10, 1/10], Some [5, 5], Some [51/10, 51/10]]"
    by (simp add: get_laes_def ex_defs)
  have h7: "[Some [1/10, 1/10], Some [5, 5], Some [51/10, 51/10 :: real]] \<noteq> []" by simp
  have t: "temp ex_world_cached (cache_key ex_args) = Some ex_artifact"
    by (simp add: ex_world_cached_def)
  show ?thesis
    using C2_histogram_over_buckets[OF h1 h2 h3 h4 h5 h6 h7] h1 h2 h3 h4 h5 h6 t by auto
qed

text \<open>
  Claim C2 as stated fails. First example: the only vector \<open>(5,5)\<close> of the collection is far
  from the seed \<open>(0,0)\<close>, so there are two centres, but only the second receives a vector:
  the histogram has one entry. Second example (seed \<open>(0)\<close>, vectors \<open>(9/10), (1), (1/10)\<close>): the
  centres are the seed and the second vector, in this order; the first vector is nearest to
  the second centre, whose bucket is therefore created first, and the histogram lists the
  count of the second centre (2 of 3) before the count of the seed (1 of 3).
\<close>

theorem C2_counterexample:
  "ler ex_env ex_args_far (ex_world\<lparr>results := ex_results_far\<rparr>)
     = (Inr [Finite 1],
        ex_world\<lparr>results := ex_results_far,
                 temp := (\<lambda>k. None)(cache_key ex_args_far \<mapsto>
                   \<lparr>centers = [((''0'', 0), [0, 0]), ((''A'', 0), [5, 5])],
                    clusters = [((''A'', 0), [(''A'', 0)])]\<rparr>)\<rparr>)
   \<and> ler ex_env ex_args_line (ex_world\<lparr>results := ex_results_line\<rparr>)
     = (Inr [Finite (2/3), Finite (1/3)],
        ex_world\<lparr>results := ex_results_line,
                 temp := (\<lambda>k. None)(cache_key ex_args_line \<mapsto>
                   \<lparr>centers = [((''0'', 0), [0]), ((''A'', 1), [1])],
                    clusters = [((''A'', 1), [(''A'', 0), (''A'', 1)]),
                                ((''0'', 0), [(''A'', 2)])]\<rparr>)\<rparr>)"
  by (simp add: ler_defs ex_defs numeral_2_eq_2)

section \<open>A configuration without local vectors\<close>

text \<open>
  Claim C7, as amended. \<open>ler\<close> has no result set aside for a configuration without local
  vectors. On a store whose cached artifacts were constructed by \<open>ler\<close>, once the artifact
  is there (cached before, or constructed by this call), the call for such a configuration
  raises IndexError when the configuration's array \<open>aid\<close> is empty, and otherwise divides
  zero by zero in every entry: it returns one NaN for every bucket.
\<close>

theorem C7_zero_vectors:
  assumes "cache_valid w"
    and "temp (snd (ler ev a w)) (cache_key a) = Some U"
    and "\<forall>x xs. aid_array (arg_atoms a) = x # xs \<longrightarrow> get_laes w a x = Some []"
  shows "fst (ler ev a w)
           = (case aid_array (arg_atoms a) of
                [] \<Rightarrow> Inl IndexError
              | x # xs \<Rightarrow> Inr (replicate (length (clusters U)) NaN))"
proof -
  note art = ler_artifact[OF assms(1,2)]
  show ?thesis
  proof (cases "aid_array (arg_atoms a)")
    case Nil
    then show ?thesis using art(2) by (simp add: calc_ler_def)
  next
    case (Cons x xs)
    with assms(3) have g: "get_laes w a x = Some []" by simp
    have "(\<Sum>(k, b)\<leftarrow>clusters U. members_of x b) = 0"
      using built_by_members(1)[OF art(1) g] by simp
    with Cons have "calc_ler (arg_atoms a) U = Inr (replicate (length (clusters U)) NaN)"
      by (rule calc_ler_zero)
    then show ?thesis using art(2) Cons by simp
  qed
qed

lemma ex_ler_C:
  "ler ex_env ex_args_C (ex_world\<lparr>results := ex_results_empty\<rparr>)
     = (Inr [NaN, NaN],
        ex_world\<lparr>results := ex_results_empty,
                 temp := (\<lambda>k. None)(cache_key ex_args_C \<mapsto> ex_artifact)\<rparr>)"
  by (simp add: ler_defs ex_defs numeral_2_eq_2)

theorem C7_zero_vectors_witness:
  "cache_valid (ex_world\<lparr>results := ex_results_empty\<rparr>)
   \<and> temp (snd (ler ex_env ex_args_C (ex_world\<lparr>results := ex_results_empty\<rparr>))) (cache_key ex_args_C)
       = Some ex_artifact
   \<and> aid_array (arg_atoms ex_args_C) = [''C'']
   \<and> get_laes (ex_world\<lparr>results := ex_results_empty\<rparr>) ex_args_C ''C'' = Some []
   \<and> fst (ler ex_env ex_args_C (ex_world\<lparr>results := ex_results_empty\<rparr>))
       = Inr (replicate (length (clusters ex_artifact)) NaN)"
proof -
  let ?w = "ex_world\<lparr>results := ex_results_empty\<rparr>"
  have h1: "cache_valid ?w" by (rule cache_valid_empty) (simp add: ex_world_def)
  have h2: "temp (snd (ler ex_env ex_args_C ?w)) (cache_key ex_args_C) = Some ex_artifact"
    by (simp add: ex_ler_C)
  have h3: "\<forall>x xs. aid_array (arg_atoms ex_args_C) = x # xs
         \<longrightarrow> get_laes ?w ex_args_C x = Some []"
    by (simp add: get_laes_def ex_defs)
  have h4: "aid_array (arg_atoms ex_args_C) = [''C'']" by (simp add: ex_defs)
  have h5: "get_laes ?w ex_args_C ''C'' = Some []" by (simp add: get_laes_def ex_defs)
  show ?thesis
    using C7_zero_vectors[OF h1 h2 h3] h1 h2 h4 h5 by simp
qed

text \<open>
  Claim C7 as stated fails. Configuration \<open>C\<close> has no local vector. Asked for its histogram,
  \<open>ler\<close> returns the two results of dividing zero by zero; and for a configuration whose
  array \<open>aid\<close> is empty it raises IndexError.
\<close>

theorem C7_counterexample:
  "get_laes (ex_world\<lparr>results := ex_results_empty\<rparr>) ex_args_C ''C'' = Some []
   \<and> fst (ler ex_env ex_args_C (ex_world\<lparr>results := ex_results_empty\<rparr>)) = Inr [NaN, NaN]
   \<and> fst (ler ex_env (ex_args_C\<lparr>arg_atoms := ex_atoms_none\<rparr>)
            (ex_world\<lparr>results := ex_results_empty\<rparr>)) = Inl IndexError"
  by (simp add: ler_defs ex_defs numeral_2_eq_2)

section \<open>The greedy pass\<close>

lemma greedy_ref_append: "greedy_ref e cs (s @ t) = greedy_ref e (greedy_ref e cs s) t"
  by (induction s arbitrary: cs) auto

lemma greedy_ref_extends: "\<exists>r. greedy_ref e cs s = cs @ r \<and> set r \<subseteq> set s"
proof (induction s arbitrary: cs)
  case Nil
  then show ?case by simp
next
  case (Cons p s)
  obtain k v where p: "p = (k, v)" by (cases p)
  show ?case
  proof (cases "\<forall>u\<in>set (map snd cs). e \<le> np_norm (map2 (-) u v)")
    case True
    from Cons.IH[of "cs @ [(k, v)]"] obtain r where
      "greedy_ref e (cs @ [(k, v)]) s = (cs @ [(k, v)]) @ r" and "set r \<subseteq> set s" by blast
    then have "greedy_ref e cs (p # s) = cs @ ((k, v) # r) \<and> set ((k, v) # r) \<subseteq> set (p # s)"
      using True p by auto
    then show ?thesis by blast
  next
    case False
    from Cons.IH[of cs] obtain r where
      "greedy_ref e cs s = cs @ r" and "set r \<subseteq> set s" by blast
    then have "greedy_ref e cs (p # s) = cs @ r \<and> set r \<subseteq> set (p # s)"
      using False p by auto
    then show ?thesis by blast
  qed
qed

lemma laes_stream_Nil: "laes_stream a n [] = []"
  by (simp add: laes_stream_def)

lemma laes_stream_Some: "laes_stream a n (Some v # m) = ((a, n), v) # laes_stream a (Suc n) m"
  by (simp add: laes_stream_def)

lemma laes_stream_keys: "set (map fst (laes_stream a n m)) \<subseteq> set (map (Pair a) [n..<n + length m])"
proof (induction m arbitrary: n)
  case Nil
  then show ?case by (simp add: laes_stream_def)
next
  case (Cons l m)
  have u: "[n..<Suc (n + length m)] = n # [Suc n..<Suc (n + length m)]"
    by (rule upt_conv_Cons) simp
  have s: "laes_stream a n (l # m)
      = (case l of None \<Rightarrow> [] | Some v \<Rightarrow> [((a, n), v)]) @ laes_stream a (Suc n) m"
    by (simp add: laes_stream_def)
  show ?case
    using Cons.IH[of "Suc n"] u s by (auto split: option.splits)
qed

lemma cluster_laes_greedy:
  assumes "\<forall>l\<in>set m. \<exists>v. l = Some v \<and> length v = d"
    and "\<forall>v\<in>set (map snd cs). length v = d"
    and "set (map fst cs) \<inter> set (map (Pair a) [n..<n + length m]) = {}"
  shows "cluster_laes e a n m cs = Inr (greedy_ref e cs (laes_stream a n m))"
  using assms
proof (induction m arbitrary: n cs)
  case Nil
  then show ?case by (simp add: laes_stream_Nil)
next
  case (Cons l m)
  from Cons.prems(1) obtain v where l: "l = Some v" and lv: "length v = d" by auto
  have rest: "\<forall>l\<in>set m. \<exists>v. l = Some v \<and> length v = d" using Cons.prems(1) by simp
  have "set (map (Pair a) [n..<n + length (l # m)]) = Pair a ` {n..<Suc (n + length m)}"
    by (simp only: set_map set_upt length_Cons add_Suc_right)
  with Cons.prems(3) have p3: "set (map fst cs) \<inter> Pair a ` {n..<Suc (n + length m)} = {}"
    by (simp only:)
  have "(a, n) \<in> Pair a ` {n..<Suc (n + length m)}" by simp
  with p3 have fresh: "(a, n) \<notin> set (map fst cs)" by blast
  have "Pair a ` {Suc n..<Suc n + length m} \<subseteq> Pair a ` {n..<Suc (n + length m)}" by auto
  with p3 have "set (map fst cs) \<inter> Pair a ` {Suc n..<Suc n + length m} = {}" by blast
  then have later: "set (map fst cs) \<inter> set (map (Pair a) [Suc n..<Suc n + length m]) = {}"
    by (simp only: set_map set_upt)
  have "\<forall>u\<in>set (map snd cs). length u = length v" using Cons.prems(2) lv by simp
  then have scan: "scan_centers e (map snd cs) v
      = Inr (\<forall>u\<in>set (map snd cs). \<not> np_norm (map2 (-) u v) < e)"
    by (rule scan_centers_uniform)
  have cond: "(\<forall>u\<in>set (map snd cs). \<not> np_norm (map2 (-) u v) < e)
      = (\<forall>u\<in>set (map snd cs). e \<le> np_norm (map2 (-) u v))"
    by (simp add: not_less)
  show ?case
  proof (cases "\<forall>u\<in>set (map snd cs). e \<le> np_norm (map2 (-) u v)")
    case True
    have "map_of cs (a, n) = None"
      using fresh by (simp add: map_of_eq_None_iff)
    then have upd: "dict_set (a, n) v cs = cs @ [((a, n), v)]" by (rule dict_set_new)
    have dims: "\<forall>u\<in>set (map snd (cs @ [((a, n), v)])). length u = d"
      using Cons.prems(2) lv by simp
    have disj: "set (map fst (cs @ [((a, n), v)])) \<inter> set (map (Pair a) [Suc n..<Suc n + length m]) = {}"
      using later by auto
    have "cluster_laes e a (Suc n) m (cs @ [((a, n), v)])
        = Inr (greedy_ref e (cs @ [((a, n), v)]) (laes_stream a (Suc n) m))"
      using rest dims disj by (rule Cons.IH)
    moreover have "scan_centers e (map snd cs) v = Inr True"
      using scan True by (simp add: not_less)
    ultimately show ?thesis
      using True l upd by (simp add: laes_stream_Some)
  next
    case False
    have "cluster_laes e a (Suc n) m cs = Inr (greedy_ref e cs (laes_stream a (Suc n) m))"
      using rest Cons.prems(2) later by (rule Cons.IH)
    moreover have "scan_centers e (map snd cs) v = Inr False"
      using scan False by (simp add: not_less)
    ultimately show ?thesis
      using False l by (auto simp: laes_stream_Some)
  qed
qed

lemma collection_stream_Cons:
  "collection_stream get (a # aids)
     = (case get a of None \<Rightarrow> [] | Some m \<Rightarrow> laes_stream a 0 m) @ collection_stream get aids"
  by (simp add: collection_stream_def)

lemma cluster_collection_greedy:
  assumes "\<forall>a\<in>set aids. \<exists>m. get a = Some m \<and> (\<forall>l\<in>set m. \<exists>v. l = Some v \<and> length v = d)"
    and "\<forall>v\<in>set (map snd cs). length v = d"
    and "distinct aids"
    and "set (map fst cs) \<inter> set (collection_ids get aids) = {}"
  shows "cluster_collection get e aids cs = Inr (greedy_ref e cs (collection_stream get aids))"
  using assms
proof (induction aids arbitrary: cs)
  case Nil
  then show ?case by (simp add: collection_stream_def)
next
  case (Cons a aids)
  from Cons.prems(1) obtain m where
    g: "get a = Some m" and m: "\<forall>l\<in>set m. \<exists>v. l = Some v \<and> length v = d" by auto
  have rest: "\<forall>a\<in>set aids. \<exists>m. get a = Some m \<and> (\<forall>l\<in>set m. \<exists>v. l = Some v \<and> length v = d)"
    using Cons.prems(1) by simp
  have ids: "collection_ids get (a # aids) = map (Pair a) [0..<length m] @ collection_ids get aids"
    using g by (simp add: collection_ids_Cons)
  have here: "set (map fst cs) \<inter> set (map (Pair a) [0..<0 + length m]) = {}"
    using Cons.prems(4) ids by auto
  let ?cs = "greedy_ref e cs (laes_stream a 0 m)"
  have inner: "cluster_laes e a 0 m cs = Inr ?cs"
    using m Cons.prems(2) here by (rule cluster_laes_greedy)
  have dims: "\<forall>v\<in>set (map snd ?cs). length v = d"
    using inner Cons.prems(2) m by (intro cluster_laes_uniform[OF inner]) auto
  obtain r where r: "?cs = cs @ r" and rs: "set r \<subseteq> set (laes_stream a 0 m)"
    using greedy_ref_extends by blast
  have "fst ` set r \<subseteq> set (map (Pair a) [0..<0 + length m])"
    using rs laes_stream_keys[of a 0 m] by auto
  moreover have "fst ` set (collection_ids get aids) \<subseteq> set aids"
    by (auto simp: collection_ids_def split: option.splits)
  moreover have "a \<notin> set aids" using Cons.prems(3) by simp
  ultimately have "fst ` set r \<inter> set (collection_ids get aids) = {}"
    by fastforce
  moreover have "set (map fst cs) \<inter> set (collection_ids get aids) = {}"
    using Cons.prems(4) ids by auto
  ultimately have disj: "set (map fst ?cs) \<inter> set (collection_ids get aids) = {}"
    using r by auto
  have "distinct aids" using Cons.prems(3) by simp
  with rest dims have "cluster_collection get e aids ?cs
      = Inr (greedy_ref e ?cs (collection_stream get aids))"
    using disj by (rule Cons.IH)
  then show ?case
    using g inner by (simp add: collection_stream_Cons greedy_ref_append)
qed

text \<open>
  The greedy pass of the source on a collection whose identifiers leave the key of the seed
  free: when every vector is present and has the dimension of the seed, the configurations
  have distinct names and no vector has the identifier \<open>('0', 0)\<close>, the clustering loops
  compute the greedy pass of the specification over the stream of the collection, and the
  first entry of the centre map is the seed under the key \<open>('0', 0)\<close>.
\<close>

lemma greedy_pass_when_seed_key_free:
  assumes "\<forall>a\<in>set aids. \<exists>m. get a = Some m \<and> (\<forall>l\<in>set m. \<exists>v. l = Some v \<and> length v = length sd)"
    and "distinct aids"
    and "(''0'', 0) \<notin> set (collection_ids get aids)"
  shows "cluster_collection get e aids [((''0'', 0), sd)]
           = Inr (greedy_ref e [((''0'', 0), sd)] (collection_stream get aids))"
    and "\<exists>r. greedy_ref e [((''0'', 0), sd)] (collection_stream get aids) = ((''0'', 0), sd) # r"
proof -
  have dims: "\<forall>v\<in>set (map snd [((''0'', 0::nat), sd)]). length v = length sd" by simp
  have disj: "set (map fst [((''0'', 0::nat), sd)]) \<inter> set (collection_ids get aids) = {}"
    using assms(3) by simp
  show "cluster_collection get e aids [((''0'', 0), sd)]
           = Inr (greedy_ref e [((''0'', 0), sd)] (collection_stream get aids))"
    using assms(1) dims assms(2) disj by (rule cluster_collection_greedy)
  show "\<exists>r. greedy_ref e [((''0'', 0), sd)] (collection_stream get aids) = ((''0'', 0), sd) # r"
    using greedy_ref_extends[of e "[((''0'', 0), sd)]" "collection_stream get aids"] by auto
qed

section \<open>The key of the seed\<close>

text \<open>
  Claim C1 at an input on which the source fails it. The collection has one configuration,
  named \<open>0\<close>, whose first vector \<open>(5,5)\<close> is farther than \<open>eps = 1\<close> from the seed \<open>(0,0)\<close>. The
  vector is registered under its own identifier \<open>('0', 0)\<close>, which is the key of the seed:
  the assignment replaces the seed, the centre map has one entry, and its first entry is
  not the seed.
\<close>

theorem C1_seed_key_collision:
  "resolve_seed ex_env ex_args_zero = Inr [0, 0]
   \<and> cluster_collection (get_laes (ex_world\<lparr>results := ex_results_zero\<rparr>) ex_args_zero)
        (arg_eps ex_args_zero) (map fst (arg_collection ex_args_zero)) [((''0'', 0), [0, 0])]
       = Inr [((''0'', 0), [5, 5])]
   \<and> build_artifact ex_env ex_args_zero (ex_world\<lparr>results := ex_results_zero\<rparr>)
       = (Inr \<lparr>centers = [((''0'', 0), [5, 5])], clusters = [((''0'', 0), [(''0'', 0)])]\<rparr>,
          ex_world\<lparr>results := ex_results_zero\<rparr>)"
  by (simp add: ler_defs ex_defs)

end
